theory Spec2Isabelle
  imports Main "HOL-Library.List_Lexorder" "HOL-Library.Sublist" "HOL-Library.Multiset"
begin

section \<open>Python values\<close>

text \<open>
  A Python \<open>str\<close> is a sequence of Unicode code points: \<open>len\<close> counts code points and
  \<open><\<close> compares code point by code point, a proper prefix being smaller. It is modelled as
  a list of natural numbers under the lexicographic order, so \<open>length\<close> is \<open>len\<close> and
  \<open>sort\<close> is \<open>sorted\<close>. The ASCII literals of the source are written \<open>asc ''...''\<close>.
\<close>

type_synonym pystr = "nat list"

definition asc :: "string \<Rightarrow> pystr" where
  "asc s = map of_char s"

text \<open>The truncation marker U+2026 and the en dash U+2013 of the source.\<close>

definition ELLIPSIS :: nat where
  "ELLIPSIS = 8230"

definition EN_DASH :: nat where
  "EN_DASH = 8211"

text \<open>\<open>str.isspace\<close> for one code point: the characters \<open>str.split()\<close> and
  \<open>str.strip()\<close> treat as whitespace.\<close>

definition is_space :: "nat \<Rightarrow> bool" where
  "is_space c \<longleftrightarrow>
     (9 \<le> c \<and> c \<le> 13) \<or> (28 \<le> c \<and> c \<le> 32) \<or> c = 133 \<or> c = 160 \<or> c = 5760 \<or>
     (8192 \<le> c \<and> c \<le> 8202) \<or> c = 8232 \<or> c = 8233 \<or> c = 8239 \<or> c = 8287 \<or> c = 12288"

text \<open>\<open>s.rstrip(chars)\<close>, \<open>s.rstrip()\<close>, \<open>s.strip()\<close>.\<close>

definition rstrip_chars :: "pystr \<Rightarrow> pystr \<Rightarrow> pystr" where
  "rstrip_chars chars s = rev (dropWhile (\<lambda>c. c \<in> set chars) (rev s))"

definition rstrip :: "pystr \<Rightarrow> pystr" where
  "rstrip s = rev (dropWhile is_space (rev s))"

definition strip :: "pystr \<Rightarrow> pystr" where
  "strip s = rstrip (dropWhile is_space s)"

text \<open>\<open>s.split()\<close>: the maximal runs of non-whitespace characters, in order.\<close>

fun split_from :: "pystr \<Rightarrow> pystr \<Rightarrow> pystr list" where
  "split_from cur [] = (if cur = [] then [] else [cur])"
| "split_from cur (c # cs) =
     (if is_space c then (if cur = [] then [] else [cur]) @ split_from [] cs
      else split_from (cur @ [c]) cs)"

definition split_ws :: "pystr \<Rightarrow> pystr list" where
  "split_ws s = split_from [] s"

text \<open>\<open>sep.join(parts)\<close>.\<close>

fun join :: "pystr \<Rightarrow> pystr list \<Rightarrow> pystr" where
  "join sep [] = []"
| "join sep [x] = x"
| "join sep (x # y # ys) = x @ sep @ join sep (y # ys)"

text \<open>\<open>s.replace(old, new)\<close> for a non-empty \<open>old\<close>: every non-overlapping occurrence, from the
  left.\<close>

fun replace :: "pystr \<Rightarrow> pystr \<Rightarrow> pystr \<Rightarrow> pystr" where
  "replace old new [] = []"
| "replace old new (c # cs) =
     (if old \<noteq> [] \<and> prefix old (c # cs)
      then new @ replace old new (drop (length old - 1) cs)
      else c # replace old new cs)"

text \<open>\<open>s.split(': ', 1)\<close> guarded by \<open>': ' in s\<close>: the text before the first occurrence of the
  separator and the text after it, or \<open>None\<close> when the separator does not occur.\<close>

fun split_once :: "pystr \<Rightarrow> pystr \<Rightarrow> (pystr \<times> pystr) option" where
  "split_once sep [] = (if sep = [] then Some ([], []) else None)"
| "split_once sep (c # cs) =
     (if prefix sep (c # cs) then Some ([], drop (length sep) (c # cs))
      else (case split_once sep cs of
              None \<Rightarrow> None
            | Some (t, v) \<Rightarrow> Some (c # t, v)))"

text \<open>
  The key both label builders dedupe on, \<open>' '.join(s.split()).lower()\<close>. \<open>str.lower\<close> is
  Python's Unicode lowercasing; it is a parameter \<open>lower\<close> of everything that calls it.
  \<open>ascii_lower\<close> is what it does on ASCII text.
\<close>

definition norm_key :: "(pystr \<Rightarrow> pystr) \<Rightarrow> pystr \<Rightarrow> pystr" where
  "norm_key lower s = lower (join (asc '' '') (split_ws s))"

definition ascii_lower :: "pystr \<Rightarrow> pystr" where
  "ascii_lower s = map (\<lambda>c. if 65 \<le> c \<and> c \<le> 90 then c + 32 else c) s"

text \<open>
  A Python \<open>set\<close> is kept as the list of its distinct members; \<open>set_add\<close> is \<open>s.add(x)\<close>.
  The order in which a \<open>set\<close> of strings is iterated depends on the hashes of its members,
  which change from one interpreter run to the next: wherever the source iterates a set
  without sorting it, the model takes the order from a parameter \<open>iter\<close>, a function that
  returns its argument permuted.
\<close>

definition set_add :: "'a \<Rightarrow> 'a list \<Rightarrow> 'a list" where
  "set_add x xs = (if x \<in> set xs then xs else xs @ [x])"

definition set_order :: "(pystr list \<Rightarrow> pystr list) \<Rightarrow> bool" where
  "set_order iter \<longleftrightarrow> (\<forall>xs. mset (iter xs) = mset xs)"

text \<open>
  A \<open>defaultdict\<close> is an association list in insertion order, which is the order
  \<open>.items()\<close> yields. \<open>dd_update d f k m\<close> is \<open>m[k] = f(m[k])\<close> where a missing key is first
  created with the default \<open>d\<close>.
\<close>

fun dd_update :: "'v \<Rightarrow> ('v \<Rightarrow> 'v) \<Rightarrow> 'k \<Rightarrow> ('k \<times> 'v) list \<Rightarrow> ('k \<times> 'v) list" where
  "dd_update d f k [] = [(k, f d)]"
| "dd_update d f k ((k', v) # kvs) =
     (if k' = k then (k', f v) # kvs else (k', v) # dd_update d f k kvs)"

text \<open>\<open>tuple(sorted([a, b]))\<close>.\<close>

definition sorted_pair :: "pystr \<Rightarrow> pystr \<Rightarrow> pystr \<times> pystr" where
  "sorted_pair a b = (if b < a then (b, a) else (a, b))"

section \<open>The CSV pipeline: aggregation\<close>

text \<open>A row of the connections file. The cells are strings.\<close>

record csv_row =
  Source :: pystr
  Target :: pystr
  Type :: pystr
  Connection_full :: pystr

record edge_info =
  weight :: nat
  types :: "pystr list"
  connections :: "pystr list"

definition new_edge_info :: edge_info where
  "new_edge_info = \<lparr>weight = 0, types = [], connections = []\<rparr>"

definition node_pair :: "csv_row \<Rightarrow> pystr \<times> pystr" where
  "node_pair row = sorted_pair (Source row) (Target row)"

definition fold_row :: "csv_row \<Rightarrow> edge_info \<Rightarrow> edge_info" where
  "fold_row row info =
     info\<lparr>weight := weight info + 1,
          types := set_add (Type row) (types info),
          connections := set_add (Connection_full row) (connections info)\<rparr>"

definition add_row ::
  "((pystr \<times> pystr) \<times> edge_info) list \<Rightarrow> csv_row \<Rightarrow> ((pystr \<times> pystr) \<times> edge_info) list" where
  "add_row edges row = dd_update new_edge_info (fold_row row) (node_pair row) edges"

definition combined_edges :: "csv_row list \<Rightarrow> ((pystr \<times> pystr) \<times> edge_info) list" where
  "combined_edges rows = foldl add_row [] rows"

section \<open>The CSV pipeline: label synthesis\<close>

text \<open>
  \<open>parsed\<close> is a dictionary with six fixed keys, each holding a list. \<open>key_of\<close> is the test
  \<open>t in parsed\<close> together with the key found.
\<close>

datatype parsed_key = City | Country | Competency | Impact | Target_market | Other

definition key_of :: "pystr \<Rightarrow> parsed_key option" where
  "key_of t =
     (if t = asc ''city'' then Some City
      else if t = asc ''country'' then Some Country
      else if t = asc ''competency'' then Some Competency
      else if t = asc ''impact'' then Some Impact
      else if t = asc ''target_market'' then Some Target_market
      else if t = asc ''other'' then Some Other
      else None)"

definition new_parsed :: "parsed_key \<Rightarrow> pystr list" where
  "new_parsed = (\<lambda>k. [])"

text \<open>The body of the loop over \<open>info['connections']\<close>, for one connection string.\<close>

definition file_conn ::
  "(pystr \<Rightarrow> pystr) \<Rightarrow> (parsed_key \<Rightarrow> pystr list) \<Rightarrow> pystr \<Rightarrow> (parsed_key \<Rightarrow> pystr list)" where
  "file_conn lower parsed conn =
     (case split_once (asc '': '') conn of
        Some (t, v) \<Rightarrow>
          (case key_of (lower (strip t)) of
             Some k \<Rightarrow> parsed(k := parsed k @ [strip v])
           | None \<Rightarrow> parsed(Other := parsed Other @ [strip v]))
      | None \<Rightarrow> parsed(Other := parsed Other @ [conn]))"

definition parse_connections ::
  "(pystr \<Rightarrow> pystr) \<Rightarrow> pystr list \<Rightarrow> (parsed_key \<Rightarrow> pystr list)" where
  "parse_connections lower conns = foldl (file_conn lower) new_parsed conns"

text \<open>\<open>xs[0] if xs else ''\<close>.\<close>

definition first_or_empty :: "pystr list \<Rightarrow> pystr" where
  "first_or_empty xs = (case xs of [] \<Rightarrow> [] | x # _ \<Rightarrow> x)"

definition norm_location :: "pystr \<Rightarrow> pystr" where
  "norm_location s =
     strip (replace [32, EN_DASH, 32] (asc ''-'') (replace (asc '' - '') (asc ''-'') s))"

text \<open>
  \<open>dedupe_preserve_order\<close>; \<open>dedupe_from\<close> is its loop, with the set \<open>seen\<close>. The loop over
  \<open>raw_parts\<close> that builds \<open>final_parts\<close> is the same code written inline.
\<close>

fun dedupe_from :: "(pystr \<Rightarrow> pystr) \<Rightarrow> pystr set \<Rightarrow> pystr list \<Rightarrow> pystr list" where
  "dedupe_from lower seen [] = []"
| "dedupe_from lower seen (s # seq) =
     (if norm_key lower s \<noteq> [] \<and> norm_key lower s \<notin> seen
      then s # dedupe_from lower (insert (norm_key lower s) seen) seq
      else dedupe_from lower seen seq)"

definition dedupe_preserve_order :: "(pystr \<Rightarrow> pystr) \<Rightarrow> pystr list \<Rightarrow> pystr list" where
  "dedupe_preserve_order lower seq = dedupe_from lower {} seq"

definition nonempty :: "pystr \<Rightarrow> pystr list" where
  "nonempty s = (if s \<noteq> [] then [s] else [])"

definition raw_parts ::
  "(pystr \<Rightarrow> pystr) \<Rightarrow> (parsed_key \<Rightarrow> pystr list) \<Rightarrow> pystr \<Rightarrow> pystr \<Rightarrow> pystr list" where
  "raw_parts lower parsed source target =
     (let city = first_or_empty (parsed City);
          country = first_or_empty (parsed Country);
          city_str = (if city \<noteq> [] then norm_location city else []);
          country_str = (if country \<noteq> [] then norm_location country else []);
          comp_str = join (asc '';'') (dedupe_preserve_order lower (parsed Competency));
          imp_str = join (asc '';'') (dedupe_preserve_order lower (parsed Impact));
          market_str = join (asc '';'') (dedupe_preserve_order lower (parsed Target_market))
      in nonempty source @ (if target \<noteq> [] \<and> target \<noteq> source then [target] else [])
         @ nonempty comp_str @ nonempty imp_str @ nonempty market_str
         @ nonempty city_str @ nonempty country_str)"

definition LABEL_MAX :: nat where
  "LABEL_MAX = 120"

definition truncate_label :: "pystr \<Rightarrow> pystr" where
  "truncate_label label =
     (if length label > LABEL_MAX
      then rstrip (rstrip_chars (asc '', '') (take (LABEL_MAX - 1) label)) @ [ELLIPSIS]
      else label)"

definition assembled_label ::
  "(pystr \<Rightarrow> pystr) \<Rightarrow> (pystr list \<Rightarrow> pystr list) \<Rightarrow> pystr \<Rightarrow> pystr \<Rightarrow> edge_info \<Rightarrow> pystr" where
  "assembled_label lower iter source target info =
     join (asc '', '')
       (dedupe_preserve_order lower
          (raw_parts lower (parse_connections lower (iter (connections info))) source target))"

definition label_detailed ::
  "(pystr \<Rightarrow> pystr) \<Rightarrow> (pystr list \<Rightarrow> pystr list) \<Rightarrow> pystr \<Rightarrow> pystr \<Rightarrow> edge_info \<Rightarrow> pystr" where
  "label_detailed lower iter source target info =
     truncate_label (assembled_label lower iter source target info)"

text \<open>
  A row of the weighted edge list. The summary label and the \<open>is_...\<close> flags of the source
  are further columns computed from \<open>weight\<close> and \<open>types\<close> alone; they are left out.
\<close>

record weighted_edge =
  out_Source :: pystr
  out_Target :: pystr
  Weight :: nat
  Types :: pystr
  Connections :: pystr
  LabelDetailed :: pystr

definition weighted_edge_of ::
  "(pystr \<Rightarrow> pystr) \<Rightarrow> (pystr list \<Rightarrow> pystr list) \<Rightarrow> (pystr \<times> pystr) \<times> edge_info \<Rightarrow> weighted_edge" where
  "weighted_edge_of lower iter e =
     (case e of ((source, target), info) \<Rightarrow>
        \<lparr>out_Source = source, out_Target = target, Weight = weight info,
         Types = join (asc '';'') (sort (iter (types info))),
         Connections = join (asc '';'') (sort (iter (connections info))),
         LabelDetailed = label_detailed lower iter source target info\<rparr>)"

definition weighted_edges ::
  "(pystr \<Rightarrow> pystr) \<Rightarrow> (pystr list \<Rightarrow> pystr list) \<Rightarrow> csv_row list \<Rightarrow> weighted_edge list" where
  "weighted_edges lower iter rows = map (weighted_edge_of lower iter) (combined_edges rows)"

section \<open>The Airtable pipeline\<close>

text \<open>
  A field of an Airtable record is missing, a string, or an array of strings.
  \<open>clean_array_field\<close> first tests the truth of the whole value (a missing field defaults to
  the empty list; the empty list and the empty string are false), and in an array keeps the
  true, that is the non-empty, entries.
\<close>

datatype field_value = Absent | Str pystr | Arr "pystr list"

fun clean_array_field :: "field_value \<Rightarrow> pystr list" where
  "clean_array_field Absent = []"
| "clean_array_field (Str v) = (if v = [] then [] else [strip v])"
| "clean_array_field (Arr vs) = map strip (filter (\<lambda>v. v \<noteq> []) vs)"

definition normalize_location :: "pystr \<Rightarrow> pystr" where
  "normalize_location location_str =
     (if location_str = [] then []
      else strip (replace [32, EN_DASH, 32] (asc ''-'')
                   (replace (asc '' - '') (asc ''-'') location_str)))"

text \<open>
  The fields of a record that \<open>process_records\<close> reads for the edges. The fields that only
  go into the node (description, website, logo) are left out, and the node list with them.
\<close>

record fields =
  f_Startup :: "pystr option"
  f_Core_Competencies :: field_value
  f_Technical_Competencies :: field_value
  f_Impact :: field_value
  f_Location_Country :: field_value
  f_Location_City :: field_value
  f_Region :: field_value
  f_Cohort :: field_value

type_synonym connection_index = "((pystr \<times> pystr) \<times> pystr list) list"

text \<open>\<open>for v in values: connection_index[(conn_type, v)].append(startup_name)\<close>.\<close>

definition index_values ::
  "pystr \<Rightarrow> pystr list \<Rightarrow> pystr \<Rightarrow> connection_index \<Rightarrow> connection_index" where
  "index_values conn_type vals startup_name index =
     foldl (\<lambda>idx v. dd_update [] (\<lambda>l. l @ [startup_name]) (conn_type, v) idx) index vals"

definition index_record :: "connection_index \<Rightarrow> fields \<Rightarrow> connection_index" where
  "index_record index r =
     (let startup_name = strip (case f_Startup r of None \<Rightarrow> [] | Some s \<Rightarrow> s)
      in if startup_name = [] then index
         else
           index_values (asc ''cohort'') (clean_array_field (f_Cohort r)) startup_name
          (index_values (asc ''region'') (clean_array_field (f_Region r)) startup_name
          (index_values (asc ''city'') (clean_array_field (f_Location_City r)) startup_name
          (index_values (asc ''country'') (clean_array_field (f_Location_Country r)) startup_name
          (index_values (asc ''impact'') (clean_array_field (f_Impact r)) startup_name
          (index_values (asc ''technical_competency'')
             (clean_array_field (f_Technical_Competencies r)) startup_name
          (index_values (asc ''competency'') (clean_array_field (f_Core_Competencies r))
             startup_name index)))))))"

definition build_index :: "fields list \<Rightarrow> connection_index" where
  "build_index records = foldl index_record [] records"

text \<open>\<open>itertools.combinations(xs, 2)\<close>.\<close>

fun combinations2 :: "'a list \<Rightarrow> ('a \<times> 'a) list" where
  "combinations2 [] = []"
| "combinations2 (x # xs) = map (Pair x) xs @ combinations2 xs"

text \<open>The pairs one index entry is expanded into: the guard on the length of the list and
  the pairs of the sorted list.\<close>

definition pair_events :: "pystr list \<Rightarrow> (pystr \<times> pystr) list" where
  "pair_events startup_list =
     (if length startup_list < 2 then [] else combinations2 (sort startup_list))"

record at_edge_info = edge_info +
  competencies :: "pystr list"
  technical_competencies :: "pystr list"
  impacts :: "pystr list"
  cities :: "pystr list"
  countries :: "pystr list"
  regions :: "pystr list"
  cohorts :: "pystr list"

definition new_at_edge_info :: at_edge_info where
  "new_at_edge_info =
     \<lparr>weight = 0, types = [], connections = [], competencies = [],
      technical_competencies = [], impacts = [], cities = [], countries = [],
      regions = [], cohorts = []\<rparr>"

text \<open>The body of the inner loop, on the entry of the edge.\<close>

definition fold_event :: "pystr \<Rightarrow> pystr \<Rightarrow> at_edge_info \<Rightarrow> at_edge_info" where
  "fold_event conn_type conn_value info =
     (let info1 = info\<lparr>weight := weight info + 1,
                        types := set_add conn_type (types info),
                        connections :=
                          set_add (conn_type @ asc '': '' @ conn_value) (connections info)\<rparr>
      in if conn_type = asc ''competency''
           then info1\<lparr>competencies := set_add conn_value (competencies info1)\<rparr>
         else if conn_type = asc ''technical_competency''
           then info1\<lparr>technical_competencies :=
                        set_add conn_value (technical_competencies info1)\<rparr>
         else if conn_type = asc ''impact''
           then info1\<lparr>impacts := set_add conn_value (impacts info1)\<rparr>
         else if conn_type = asc ''city''
           then info1\<lparr>cities := set_add conn_value (cities info1)\<rparr>
         else if conn_type = asc ''country''
           then info1\<lparr>countries := set_add conn_value (countries info1)\<rparr>
         else if conn_type = asc ''region''
           then info1\<lparr>regions := set_add conn_value (regions info1)\<rparr>
         else if conn_type = asc ''cohort''
           then info1\<lparr>cohorts := set_add conn_value (cohorts info1)\<rparr>
         else info1)"

type_synonym at_edges = "((pystr \<times> pystr) \<times> at_edge_info) list"

text \<open>A sharing event: the connection and the pair of entities.\<close>

type_synonym sharing_event = "(pystr \<times> pystr) \<times> (pystr \<times> pystr)"

definition add_event :: "at_edges \<Rightarrow> sharing_event \<Rightarrow> at_edges" where
  "add_event edges ev =
     (case ev of ((conn_type, conn_value), (source, target)) \<Rightarrow>
        dd_update new_at_edge_info (fold_event conn_type conn_value)
          (sorted_pair source target) edges)"

definition add_entry :: "at_edges \<Rightarrow> (pystr \<times> pystr) \<times> pystr list \<Rightarrow> at_edges" where
  "add_entry edges entry =
     (case entry of (conn, startup_list) \<Rightarrow>
        foldl add_event edges (map (Pair conn) (pair_events startup_list)))"

definition at_combined_edges :: "connection_index \<Rightarrow> at_edges" where
  "at_combined_edges index = foldl add_entry [] index"

text \<open>All sharing events of an index, in the order the loops produce them.\<close>

definition sharing_events :: "connection_index \<Rightarrow> sharing_event list" where
  "sharing_events index =
     concat (map (\<lambda>(conn, startup_list). map (Pair conn) (pair_events startup_list)) index)"

definition event_key :: "sharing_event \<Rightarrow> pystr \<times> pystr" where
  "event_key ev = (case ev of (conn, (source, target)) \<Rightarrow> sorted_pair source target)"

text \<open>\<open>label_parts\<close>: one token for each category whose set \<open>s\<close> is not empty.\<close>

definition token :: "pystr list \<Rightarrow> pystr list \<Rightarrow> pystr list" where
  "token s vals = (if s \<noteq> [] then [join (asc ''; '') vals] else [])"

definition label_parts :: "(pystr list \<Rightarrow> pystr list) \<Rightarrow> at_edge_info \<Rightarrow> pystr list" where
  "label_parts iter info =
     token (competencies info) (sort (iter (competencies info)))
     @ token (technical_competencies info) (sort (iter (technical_competencies info)))
     @ token (impacts info) (sort (iter (impacts info)))
     @ token (cities info) (map normalize_location (sort (iter (cities info))))
     @ token (countries info) (map normalize_location (sort (iter (countries info))))
     @ token (regions info) (sort (iter (regions info)))
     @ token (cohorts info) (sort (iter (cohorts info)))"

definition MAX_LABEL :: nat where
  "MAX_LABEL = 120"

definition at_truncate_label :: "pystr \<Rightarrow> pystr" where
  "at_truncate_label label =
     (if length label > MAX_LABEL
      then rstrip_chars (asc '', '') (take (MAX_LABEL - 1) label) @ [ELLIPSIS]
      else label)"

definition at_label_detailed :: "(pystr list \<Rightarrow> pystr list) \<Rightarrow> at_edge_info \<Rightarrow> pystr" where
  "at_label_detailed iter info = at_truncate_label (join (asc '', '') (label_parts iter info))"

text \<open>
  An edge of the JSON document. \<open>list(s)\<close> of a set is the set in its iteration order. The
  short label and the \<open>is_...\<close> flags are left out.
\<close>

record at_edge =
  source :: pystr
  target :: pystr
  edge_weight :: nat
  edge_label_detailed :: pystr
  edge_types :: "pystr list"
  edge_competencies :: "pystr list"
  edge_technical_competencies :: "pystr list"
  edge_impacts :: "pystr list"
  edge_cities :: "pystr list"
  edge_countries :: "pystr list"
  edge_regions :: "pystr list"
  edge_cohorts :: "pystr list"

definition at_edge_of ::
  "(pystr list \<Rightarrow> pystr list) \<Rightarrow> (pystr \<times> pystr) \<times> at_edge_info \<Rightarrow> at_edge" where
  "at_edge_of iter e =
     (case e of ((src, tgt), info) \<Rightarrow>
        \<lparr>source = src, target = tgt, edge_weight = weight info,
         edge_label_detailed = at_label_detailed iter info,
         edge_types = iter (types info),
         edge_competencies = iter (competencies info),
         edge_technical_competencies = iter (technical_competencies info),
         edge_impacts = iter (impacts info),
         edge_cities = iter (cities info),
         edge_countries = iter (countries info),
         edge_regions = iter (regions info),
         edge_cohorts = iter (cohorts info)\<rparr>)"

definition process_records :: "(pystr list \<Rightarrow> pystr list) \<Rightarrow> fields list \<Rightarrow> at_edge list" where
  "process_records iter records =
     map (at_edge_of iter) (at_combined_edges (build_index records))"

section \<open>Example inputs\<close>

text \<open>Two identical rows between B and A, and a row from A to A.\<close>

definition row_BA :: csv_row where
  "row_BA = \<lparr>Source = asc ''B'', Target = asc ''A'', Type = asc ''competency'',
             Connection_full = asc ''competency: ML''\<rparr>"

definition row_AA :: csv_row where
  "row_AA = \<lparr>Source = asc ''A'', Target = asc ''A'', Type = asc ''city'',
             Connection_full = asc ''city: Berlin''\<rparr>"

text \<open>A record with a name and core competencies only.\<close>

definition startup :: "pystr \<Rightarrow> pystr list \<Rightarrow> fields" where
  "startup name comps =
     \<lparr>f_Startup = Some name, f_Core_Competencies = Arr comps,
      f_Technical_Competencies = Absent, f_Impact = Absent, f_Location_Country = Absent,
      f_Location_City = Absent, f_Region = Absent, f_Cohort = Absent\<rparr>"

text \<open>Two startups that share two competencies.\<close>

definition recs_AB :: "fields list" where
  "recs_AB = [startup (asc ''A'') [asc ''ML'', asc ''NLP''],
              startup (asc ''B'') [asc ''ML'', asc ''NLP'']]"

text \<open>The invariant of an aggregated entry under its key.\<close>

definition edge_ok :: "pystr \<times> pystr \<Rightarrow> 'a edge_info_scheme \<Rightarrow> bool" where
  "edge_ok k info \<longleftrightarrow>
     fst k \<le> snd k \<and> distinct (types info) \<and> 1 \<le> length (types info)
     \<and> length (types info) \<le> weight info"

text \<open>A row between A and B in a second category, and three rows of one edge in two
  categories.\<close>

definition row_AB_city :: csv_row where
  "row_AB_city = \<lparr>Source = asc ''A'', Target = asc ''B'', Type = asc ''city'',
                  Connection_full = asc ''city: Berlin''\<rparr>"

definition rows_AB :: "csv_row list" where
  "rows_AB = [row_BA, row_AB_city, row_BA]"

text \<open>Two startups that share a competency and a city.\<close>

definition recs_AB_city :: "fields list" where
  "recs_AB_city =
     [(startup (asc ''A'') [asc ''ML''])\<lparr>f_Location_City := Str (asc ''Berlin'')\<rparr>,
      (startup (asc ''B'') [asc ''ML''])\<lparr>f_Location_City := Str (asc ''Berlin'')\<rparr>]"

text \<open>Two records of the same startup, and four startups, each with the one competency.\<close>

definition recs_AA :: "fields list" where
  "recs_AA = [startup (asc ''A'') [asc ''ML''], startup (asc ''A'') [asc ''ML'']]"

definition recs_4 :: "fields list" where
  "recs_4 = [startup (asc ''D'') [asc ''ML''], startup (asc ''B'') [asc ''ML''],
             startup (asc ''A'') [asc ''ML''], startup (asc ''C'') [asc ''ML'']]"

text \<open>Three records, two of them of the same startup, with the one competency.\<close>

definition recs_ABA :: "fields list" where
  "recs_ABA = [startup (asc ''A'') [asc ''ML''], startup (asc ''B'') [asc ''ML''],
               startup (asc ''A'') [asc ''ML'']]"

text \<open>Two startups whose only competency is a string of two spaces.\<close>

definition recs_blank :: "fields list" where
  "recs_blank = [startup (asc ''A'') [asc ''  ''], startup (asc ''B'') [asc ''  '']]"

section \<open>Lemmas on the containers and the two aggregations\<close>

lemma dd_update_keys:
  "map fst (dd_update d f k m) = (if k \<in> fst ` set m then map fst m else map fst m @ [k])"
  by (induction m) force+

lemma dd_update_distinct:
  "distinct (map fst m) \<Longrightarrow> distinct (map fst (dd_update d f k m))"
  by (simp add: dd_update_keys)

lemma dd_update_map_of:
  "map_of (dd_update d f k m) =
     (map_of m)(k \<mapsto> f (case map_of m k of None \<Rightarrow> d | Some v \<Rightarrow> v))"
  by (induction m) (auto simp: fun_eq_iff)

text \<open>An invariant of the entries is kept by an update that keeps it.\<close>

lemma dd_update_invariant:
  assumes "\<forall>(k', v) \<in> set m. P k' v" and "P k (f d)" and "\<And>v. P k v \<Longrightarrow> P k (f v)"
  shows "\<forall>(k', v) \<in> set (dd_update d f k m). P k' v"
  using assms by (induction m) (auto split: if_splits)

lemma combined_edges_snoc:
  "combined_edges (rows @ [row]) = add_row (combined_edges rows) row"
  by (simp add: combined_edges_def)

lemma combined_edges_distinct: "distinct (map fst (combined_edges rows))"
proof (induction rows rule: rev_induct)
  case Nil
  show ?case by (simp add: combined_edges_def)
next
  case (snoc row rows)
  then show ?case by (simp add: combined_edges_snoc add_row_def dd_update_distinct)
qed



lemma fold_event_weight: "weight (fold_event conn_type conn_value info) = weight info + 1"
  by (simp add: fold_event_def Let_def)

lemma at_combined_edges_events:
  "at_combined_edges index = foldl add_event [] (sharing_events index)"
proof (induction index rule: rev_induct)
  case Nil
  show ?case by (simp add: at_combined_edges_def sharing_events_def)
next
  case (snoc entry index)
  then show ?case
    by (cases entry) (simp add: at_combined_edges_def sharing_events_def add_entry_def)
qed

lemma add_event_pair:
  "add_event edges ((ct, cv), (s, t)) =
     dd_update new_at_edge_info (fold_event ct cv) (sorted_pair s t) edges"
  by (simp add: add_event_def)

lemma events_distinct: "distinct (map fst (foldl add_event [] evs))"
proof (induction evs rule: rev_induct)
  case Nil
  show ?case by simp
next
  case (snoc ev evs)
  obtain ct cv s t where ev: "ev = ((ct, cv), (s, t))"
    by (metis surj_pair)
  from snoc show ?case by (simp add: ev add_event_pair dd_update_distinct)
qed



section \<open>Weight\<close>


section \<open>The example inputs, evaluated\<close>


lemma build_index_example:
  "build_index recs_AB =
     [((asc ''competency'', asc ''ML''), [asc ''A'', asc ''B'']),
      ((asc ''competency'', asc ''NLP''), [asc ''A'', asc ''B''])]"
  by (simp add: recs_AB_def build_index_def index_record_def startup_def index_values_def
        strip_def rstrip_def is_space_def asc_def Let_def)

lemma pair_events_example:
  "pair_events [asc ''A'', asc ''B''] = [(asc ''A'', asc ''B'')]"
  by (simp add: pair_events_def asc_def)




section \<open>Keys and invariants of the aggregated edges\<close>

lemma sorted_pair_le: "sorted_pair a b = (s, t) \<Longrightarrow> s \<le> t"
  by (auto simp: sorted_pair_def split: if_splits)

lemma sorted_pair_same: "sorted_pair a b = (E, E) \<longleftrightarrow> a = E \<and> b = E"
  by (auto simp: sorted_pair_def)

lemma set_add_distinct: "distinct xs \<Longrightarrow> distinct (set_add x xs)"
  by (simp add: set_add_def)

lemma set_add_length: "length (set_add x xs) \<le> Suc (length xs) \<and> 1 \<le> length (set_add x xs)"
  by (cases xs) (simp_all add: set_add_def)

lemma dd_update_key_set: "fst ` set (dd_update d f k m) = insert k (fst ` set m)"
proof -
  have "set (map fst (dd_update d f k m)) = insert k (set (map fst m))"
    unfolding dd_update_keys by auto
  then show ?thesis by simp
qed

lemma combined_edges_keys: "fst ` set (combined_edges rows) = node_pair ` set rows"
  by (induction rows rule: rev_induct)
     (simp_all add: combined_edges_def add_row_def dd_update_key_set)

lemma events_keys: "fst ` set (foldl add_event [] evs) = event_key ` set evs"
proof (induction evs rule: rev_induct)
  case Nil
  show ?case by simp
next
  case (snoc ev evs)
  obtain ct cv s t where ev: "ev = ((ct, cv), (s, t))"
    by (metis surj_pair)
  from snoc show ?case
    by (simp add: ev add_event_pair dd_update_key_set event_key_def)
qed

lemma fold_row_ok:
  assumes "info = new_edge_info \<or> edge_ok (node_pair row) info"
  shows "edge_ok (node_pair row) (fold_row row info)"
proof -
  obtain s t where st: "node_pair row = (s, t)"
    by (cases "node_pair row")
  then have "s \<le> t"
    by (simp add: node_pair_def sorted_pair_le)
  with assms st set_add_length [of "Type row" "types info"] show ?thesis
    by (auto simp: edge_ok_def fold_row_def new_edge_info_def set_add_distinct
          intro: le_trans)
qed

lemma combined_edges_ok: "\<forall>(k, info) \<in> set (combined_edges rows). edge_ok k info"
proof (induction rows rule: rev_induct)
  case Nil
  show ?case by (simp add: combined_edges_def)
next
  case (snoc row rows)
  show ?case
    unfolding combined_edges_snoc add_row_def
    by (rule dd_update_invariant [OF snoc]) (simp_all add: fold_row_ok)
qed

lemma fold_event_types:
  "types (fold_event ct cv info) = set_add ct (types info)"
  by (simp add: fold_event_def Let_def)

lemma fold_event_ok:
  assumes "info = new_at_edge_info \<or> edge_ok (sorted_pair s t) info"
  shows "edge_ok (sorted_pair s t) (fold_event ct cv info)"
proof -
  obtain a b where ab: "sorted_pair s t = (a, b)"
    by (cases "sorted_pair s t")
  then have "a \<le> b"
    by (simp add: sorted_pair_le)
  with assms ab set_add_length [of ct "types info"] show ?thesis
    by (auto simp: edge_ok_def fold_event_types fold_event_weight new_at_edge_info_def
          set_add_distinct intro: le_trans)
qed

lemma events_ok: "\<forall>(k, info) \<in> set (foldl add_event [] evs). edge_ok k info"
proof (induction evs rule: rev_induct)
  case Nil
  show ?case by simp
next
  case (snoc ev evs)
  obtain ct cv s t where ev: "ev = ((ct, cv), (s, t))"
    by (metis surj_pair)
  show ?case
    unfolding foldl_append foldl.simps ev add_event_pair
    by (rule dd_update_invariant [OF snoc]) (simp_all add: fold_event_ok)
qed

lemma set_order_length: "set_order iter \<Longrightarrow> length (iter xs) = length xs"
  by (metis set_order_def size_mset)

lemma set_order_distinct: "set_order iter \<Longrightarrow> distinct (iter xs) = distinct xs"
  by (metis set_order_def mset_eq_imp_distinct_iff)

lemma set_order_set: "set_order iter \<Longrightarrow> set (iter xs) = set xs"
  by (metis set_order_def set_mset_mset)

lemma set_order_id: "set_order id"
  by (simp add: set_order_def)

lemma set_order_rev: "set_order rev"
  by (simp add: set_order_def)

section \<open>Exported edges\<close>

lemma set_set_add: "set (set_add x xs) = insert x (set xs)"
  by (auto simp: set_add_def)

lemma combined_edges_types:
  "(case map_of (combined_edges rows) k of None \<Rightarrow> {} | Some info \<Rightarrow> set (types info)) =
     set (map Type (filter (\<lambda>row. node_pair row = k) rows))"
proof (induction rows rule: rev_induct)
  case Nil
  show ?case by (simp add: combined_edges_def)
next
  case (snoc row rows)
  then show ?case
    by (cases "map_of (combined_edges rows) (node_pair row)")
       (auto simp: combined_edges_snoc add_row_def dd_update_map_of fold_row_def
          new_edge_info_def set_set_add)
qed

lemma combined_edges_entry_types:
  assumes "(k, info) \<in> set (combined_edges rows)"
  shows "set (types info) = set (map Type (filter (\<lambda>row. node_pair row = k) rows))"
proof -
  from assms have "map_of (combined_edges rows) k = Some info"
    by (simp add: combined_edges_distinct)
  with combined_edges_types [of rows k] show ?thesis by simp
qed

lemma event_key_pair: "event_key ((ct, cv), (s, t)) = sorted_pair s t"
  by (simp add: event_key_def)

lemma events_types:
  "(case map_of (foldl add_event [] evs) k of None \<Rightarrow> {} | Some info \<Rightarrow> set (types info)) =
     set (map (\<lambda>ev. fst (fst ev)) (filter (\<lambda>ev. event_key ev = k) evs))"
proof (induction evs rule: rev_induct)
  case Nil
  show ?case by simp
next
  case (snoc ev evs)
  let ?m = "foldl add_event [] evs"
  obtain ct cv s t where ev: "ev = ((ct, cv), (s, t))"
    by (metis surj_pair)
  have m: "map_of (foldl add_event [] (evs @ [ev])) =
      (map_of ?m)(event_key ev \<mapsto>
         fold_event ct cv (case map_of ?m (event_key ev) of None \<Rightarrow> new_at_edge_info
                           | Some v \<Rightarrow> v))"
    by (simp add: ev add_event_pair event_key_pair dd_update_map_of)
  have ct: "fst (fst ev) = ct"
    by (simp add: ev)
  show ?case
  proof (cases "event_key ev = k")
    case True
    with snoc ct show ?thesis
      unfolding m
      by (cases "map_of ?m k") (auto simp: fold_event_types set_set_add new_at_edge_info_def)
  next
    case False
    with snoc show ?thesis
      unfolding m by simp
  qed
qed

lemma at_combined_edges_entry_types:
  assumes "(k, info) \<in> set (at_combined_edges index)"
  shows "set (types info) =
           set (map (\<lambda>ev. fst (fst ev)) (filter (\<lambda>ev. event_key ev = k) (sharing_events index)))"
proof -
  from assms have "map_of (foldl add_event [] (sharing_events index)) k = Some info"
    by (simp add: at_combined_edges_events events_distinct)
  with events_types [of "sharing_events index" k] show ?thesis by simp
qed

lemma sort_cong_mset: "mset xs = mset ys \<Longrightarrow> sort xs = sort ys"
  by (metis mset_sort properties_for_sort sorted_sort)

lemma distinct_same_set_remdups:
  assumes "distinct xs" and "set xs = set ys"
  shows "mset xs = mset (remdups ys)" and "length xs = length (remdups ys)"
proof -
  from assms show "mset xs = mset (remdups ys)"
    by (simp add: set_eq_iff_mset_eq_distinct [symmetric])
  then show "length xs = length (remdups ys)"
    by (metis size_mset)
qed

lemma combined_edges_rows_AB:
  "combined_edges rows_AB =
     [((asc ''A'', asc ''B''),
       \<lparr>weight = 3, types = [asc ''competency'', asc ''city''],
        connections = [asc ''competency: ML'', asc ''city: Berlin'']\<rparr>)]"
  by (simp add: rows_AB_def combined_edges_def add_row_def node_pair_def sorted_pair_def
        row_BA_def row_AB_city_def fold_row_def new_edge_info_def set_add_def asc_def)

lemma build_index_recs_AB_city:
  "build_index recs_AB_city =
     [((asc ''competency'', asc ''ML''), [asc ''A'', asc ''B'']),
      ((asc ''city'', asc ''Berlin''), [asc ''A'', asc ''B''])]"
  by (simp add: recs_AB_city_def build_index_def index_record_def startup_def index_values_def
        strip_def rstrip_def is_space_def asc_def Let_def)

lemma sharing_events_recs_AB_city:
  "sharing_events (build_index recs_AB_city) =
     [((asc ''competency'', asc ''ML''), (asc ''A'', asc ''B'')),
      ((asc ''city'', asc ''Berlin''), (asc ''A'', asc ''B''))]"
  by (simp add: build_index_recs_AB_city sharing_events_def pair_events_example)

lemma at_combined_edges_recs_AB_city:
  "at_combined_edges (build_index recs_AB_city) =
     [((asc ''A'', asc ''B''),
       \<lparr>weight = 2, types = [asc ''competency'', asc ''city''],
        connections = [asc ''competency: ML'', asc ''city: Berlin''],
        competencies = [asc ''ML''], technical_competencies = [], impacts = [],
        cities = [asc ''Berlin''], countries = [], regions = [], cohorts = []\<rparr>)]"
  by (simp add: at_combined_edges_events sharing_events_recs_AB_city add_event_pair)
     (simp add: sorted_pair_def fold_event_def new_at_edge_info_def set_add_def asc_def)

text \<open>
  C10. Every emitted edge has its two names in sorted order. The distinct categories on the
  edge are the distinct \<open>Type\<close> cells of the rows between the two names (CSV pipeline) and
  the distinct connection types of the sharing events between them (Airtable pipeline);
  their number is at least 1 and at most the exported weight. The exported column \<open>Types\<close>
  is these categories, sorted and joined with a semicolon, and the exported list \<open>types\<close>
  is a permutation of them, whatever the order in which the sets are iterated.
\<close>

theorem exported_edges_sorted_and_weighted:
  "(\<forall>e \<in> set (weighted_edges lower iter rows).
      (let cats = remdups (map Type
                    (filter (\<lambda>row. node_pair row = (out_Source e, out_Target e)) rows))
       in out_Source e \<le> out_Target e \<and> 1 \<le> length cats \<and> length cats \<le> Weight e
          \<and> (set_order iter \<longrightarrow> Types e = join (asc '';'') (sort cats))))
   \<and> (\<forall>e \<in> set (process_records iter records).
      (let cats = remdups (map (\<lambda>ev. fst (fst ev))
                    (filter (\<lambda>ev. event_key ev = (source e, target e))
                       (sharing_events (build_index records))))
       in source e \<le> target e \<and> 1 \<le> length cats \<and> length cats \<le> edge_weight e
          \<and> (set_order iter \<longrightarrow> mset (edge_types e) = mset cats)))"
proof (intro conjI ballI)
  fix e assume "e \<in> set (weighted_edges lower iter rows)"
  then obtain k info where in_edges: "(k, info) \<in> set (combined_edges rows)"
    and e: "e = weighted_edge_of lower iter (k, info)"
    by (auto simp: weighted_edges_def)
  obtain s t where k: "k = (s, t)"
    by (cases k)
  let ?cats = "remdups (map Type (filter (\<lambda>row. node_pair row = (s, t)) rows))"
  from in_edges combined_edges_ok [of rows] have ok: "edge_ok k info"
    by auto
  from in_edges have "set (types info) = set (map Type (filter (\<lambda>row. node_pair row = (s, t)) rows))"
    unfolding k by (rule combined_edges_entry_types)
  with ok have cats: "mset (types info) = mset ?cats" "length (types info) = length ?cats"
    by (simp_all add: edge_ok_def distinct_same_set_remdups)
  have fields: "out_Source e = s" "out_Target e = t" "Weight e = weight info"
    "Types e = join (asc '';'') (sort (iter (types info)))"
    by (simp_all add: e k weighted_edge_of_def)
  have "set_order iter \<longrightarrow> sort (iter (types info)) = sort ?cats"
    using cats(1) by (auto simp: set_order_def intro: sort_cong_mset)
  with ok cats(2) show "let cats = remdups (map Type
                    (filter (\<lambda>row. node_pair row = (out_Source e, out_Target e)) rows))
       in out_Source e \<le> out_Target e \<and> 1 \<le> length cats \<and> length cats \<le> Weight e
          \<and> (set_order iter \<longrightarrow> Types e = join (asc '';'') (sort cats))"
    by (simp add: fields Let_def edge_ok_def k)
next
  fix e assume "e \<in> set (process_records iter records)"
  then obtain k info where in_edges: "(k, info) \<in> set (at_combined_edges (build_index records))"
    and e: "e = at_edge_of iter (k, info)"
    by (auto simp: process_records_def)
  obtain s t where k: "k = (s, t)"
    by (cases k)
  let ?cats = "remdups (map (\<lambda>ev. fst (fst ev))
                    (filter (\<lambda>ev. event_key ev = (s, t)) (sharing_events (build_index records))))"
  from in_edges events_ok [of "sharing_events (build_index records)"] have ok: "edge_ok k info"
    by (auto simp: at_combined_edges_events)
  from in_edges have "set (types info) =
      set (map (\<lambda>ev. fst (fst ev))
             (filter (\<lambda>ev. event_key ev = (s, t)) (sharing_events (build_index records))))"
    unfolding k by (rule at_combined_edges_entry_types)
  with ok have cats: "mset (types info) = mset ?cats" "length (types info) = length ?cats"
    by (simp_all add: edge_ok_def distinct_same_set_remdups)
  have fields: "source e = s" "target e = t" "edge_weight e = weight info"
    "edge_types e = iter (types info)"
    by (simp_all add: e k at_edge_of_def)
  have "set_order iter \<longrightarrow> mset (iter (types info)) = mset ?cats"
    using cats(1) by (simp add: set_order_def)
  with ok cats(2) show "let cats = remdups (map (\<lambda>ev. fst (fst ev))
                    (filter (\<lambda>ev. event_key ev = (source e, target e))
                       (sharing_events (build_index records))))
       in source e \<le> target e \<and> 1 \<le> length cats \<and> length cats \<le> edge_weight e
          \<and> (set_order iter \<longrightarrow> mset (edge_types e) = mset cats)"
    by (simp add: fields Let_def edge_ok_def k)
qed

theorem exported_edges_sorted_and_weighted_witness:
  "set_order id
   \<and> map out_Source (weighted_edges ascii_lower id rows_AB) = [asc ''A'']
   \<and> map out_Target (weighted_edges ascii_lower id rows_AB) = [asc ''B'']
   \<and> asc ''A'' \<le> asc ''B''
   \<and> remdups (map Type (filter (\<lambda>row. node_pair row = (asc ''A'', asc ''B'')) rows_AB))
       = [asc ''city'', asc ''competency'']
   \<and> map Weight (weighted_edges ascii_lower id rows_AB) = [3]
   \<and> map Types (weighted_edges ascii_lower id rows_AB) = [asc ''city;competency'']
   \<and> map source (process_records id recs_AB_city) = [asc ''A'']
   \<and> map target (process_records id recs_AB_city) = [asc ''B'']
   \<and> remdups (map (\<lambda>ev. fst (fst ev))
         (filter (\<lambda>ev. event_key ev = (asc ''A'', asc ''B''))
            (sharing_events (build_index recs_AB_city))))
       = [asc ''competency'', asc ''city'']
   \<and> map edge_weight (process_records id recs_AB_city) = [2]
   \<and> map edge_types (process_records id recs_AB_city) = [[asc ''competency'', asc ''city'']]"
proof -
  from exported_edges_sorted_and_weighted [of ascii_lower id rows_AB recs_AB_city]
  have csv: "\<forall>e \<in> set (weighted_edges ascii_lower id rows_AB).
      (let cats = remdups (map Type
                    (filter (\<lambda>row. node_pair row = (out_Source e, out_Target e)) rows_AB))
       in out_Source e \<le> out_Target e \<and> 1 \<le> length cats \<and> length cats \<le> Weight e
          \<and> (set_order id \<longrightarrow> Types e = join (asc '';'') (sort cats)))"
    and at: "\<forall>e \<in> set (process_records id recs_AB_city).
      (let cats = remdups (map (\<lambda>ev. fst (fst ev))
                    (filter (\<lambda>ev. event_key ev = (source e, target e))
                       (sharing_events (build_index recs_AB_city))))
       in source e \<le> target e \<and> 1 \<le> length cats \<and> length cats \<le> edge_weight e
          \<and> (set_order id \<longrightarrow> mset (edge_types e) = mset cats))"
    by blast+
  have es: "weighted_edges ascii_lower id rows_AB =
      [weighted_edge_of ascii_lower id ((asc ''A'', asc ''B''),
         \<lparr>weight = 3, types = [asc ''competency'', asc ''city''],
          connections = [asc ''competency: ML'', asc ''city: Berlin'']\<rparr>)]"
    by (simp add: weighted_edges_def combined_edges_rows_AB)
  have ps: "process_records id recs_AB_city =
      map (at_edge_of id) (at_combined_edges (build_index recs_AB_city))"
    by (simp add: process_records_def)
  have cats: "remdups (map Type (filter (\<lambda>row. node_pair row = (asc ''A'', asc ''B'')) rows_AB))
       = [asc ''city'', asc ''competency'']"
    by (simp add: rows_AB_def node_pair_def sorted_pair_def row_BA_def row_AB_city_def asc_def)
  have at_cats: "remdups (map (\<lambda>ev. fst (fst ev))
         (filter (\<lambda>ev. event_key ev = (asc ''A'', asc ''B''))
            (sharing_events (build_index recs_AB_city))))
       = [asc ''competency'', asc ''city'']"
    unfolding sharing_events_recs_AB_city
    by (simp add: event_key_def sorted_pair_def asc_def)
  have le: "asc ''A'' \<le> asc ''B''"
    by (simp add: asc_def)
  from csv have types: "map Types (weighted_edges ascii_lower id rows_AB) = [asc ''city;competency'']"
    unfolding es
    by (simp add: weighted_edge_of_def cats Let_def set_order_id) (simp add: asc_def)
  have rest: "map out_Source (weighted_edges ascii_lower id rows_AB) = [asc ''A'']"
    "map out_Target (weighted_edges ascii_lower id rows_AB) = [asc ''B'']"
    "map Weight (weighted_edges ascii_lower id rows_AB) = [3]"
    unfolding es by (simp_all add: weighted_edge_of_def)
  have at_rest: "map source (process_records id recs_AB_city) = [asc ''A'']"
    "map target (process_records id recs_AB_city) = [asc ''B'']"
    "map edge_weight (process_records id recs_AB_city) = [2]"
    "map edge_types (process_records id recs_AB_city) = [[asc ''competency'', asc ''city'']]"
    unfolding ps at_combined_edges_recs_AB_city by (simp_all add: at_edge_of_def)
  from le cats at_cats types rest at_rest set_order_id show ?thesis
    by simp
qed

section \<open>The pairs of an index entry\<close>

lemma in_image_iff: "y \<in> f ` S \<longleftrightarrow> (\<exists>x \<in> S. f x = y)"
  by blast

lemma length_combinations2: "length (combinations2 xs) = length xs choose 2"
proof (induction xs)
  case Nil
  show ?case by simp
next
  case (Cons x xs)
  have "Suc (length xs) choose Suc (Suc 0) = length xs + (length xs choose Suc (Suc 0))"
    by simp
  then have "Suc (length xs) choose 2 = length xs + (length xs choose 2)"
    by (simp only: numeral_2_eq_2)
  with Cons show ?case by simp
qed

lemma combinations2_same: "(E, E) \<in> set (combinations2 xs) \<longleftrightarrow> 2 \<le> count_list xs E"
proof (induction xs)
  case Nil
  show ?case by simp
next
  case (Cons x xs)
  have "E \<in> set xs \<longleftrightarrow> 1 \<le> count_list xs E"
    using count_list_0_iff [of xs E] by auto
  with Cons show ?case by auto
qed

lemma count_list_sort: "count_list (sort xs) E = count_list xs E"
  by (metis count_mset mset_sort)

lemma set_combinations2:
  "sorted xs \<Longrightarrow> distinct xs \<Longrightarrow>
     set (combinations2 xs) = {(a, b). a \<in> set xs \<and> b \<in> set xs \<and> a < b}"
  by (induction xs) (auto simp: less_le)

lemma distinct_combinations2: "distinct xs \<Longrightarrow> distinct (combinations2 xs)"
proof (induction xs)
  case Nil
  show ?case by simp
next
  case (Cons x xs)
  have "\<And>a b. (a, b) \<in> set (combinations2 xs) \<Longrightarrow> a \<in> set xs"
    by (induction xs) auto
  with Cons show ?case
    by (auto simp: distinct_map inj_on_def)
qed

lemma pair_events_same:
  "(E, E) \<in> set (pair_events startup_list) \<longleftrightarrow> 2 \<le> count_list startup_list E"
proof -
  have "count_list startup_list E \<le> length startup_list"
    by (rule count_le_length)
  then show ?thesis
    by (auto simp: pair_events_def combinations2_same count_list_sort)
qed

lemma sharing_events_Nil: "sharing_events [] = []"
  by (simp add: sharing_events_def)

lemma sharing_events_Cons:
  "sharing_events ((c, l) # index) = map (Pair c) (pair_events l) @ sharing_events index"
  by (simp add: sharing_events_def)

lemma sharing_events_iff:
  "(conn, p) \<in> set (sharing_events index) \<longleftrightarrow>
     (\<exists>startup_list. (conn, startup_list) \<in> set index \<and> p \<in> set (pair_events startup_list))"
proof (induction index)
  case Nil
  show ?case by (simp add: sharing_events_Nil)
next
  case (Cons entry index)
  obtain c l where entry: "entry = (c, l)"
    by (cases entry)
  have "(conn, p) \<in> set (sharing_events (entry # index)) \<longleftrightarrow>
      (conn = c \<and> p \<in> set (pair_events l)) \<or> (conn, p) \<in> set (sharing_events index)"
    unfolding entry sharing_events_Cons by auto
  also have "\<dots> \<longleftrightarrow> (\<exists>startup_list. (conn, startup_list) \<in> set (entry # index)
      \<and> p \<in> set (pair_events startup_list))"
    unfolding Cons.IH entry by auto
  finally show ?case .
qed

lemma weighted_edges_keys:
  "map (\<lambda>e. (out_Source e, out_Target e)) (weighted_edges lower iter rows) =
     map fst (combined_edges rows)"
  by (simp add: weighted_edges_def weighted_edge_of_def case_prod_beta)

lemma process_records_keys:
  "map (\<lambda>e. (source e, target e)) (process_records iter records) =
     map fst (at_combined_edges (build_index records))"
  by (simp add: process_records_def at_edge_of_def case_prod_beta)

lemma combined_edges_row_AA:
  "combined_edges [row_AA] =
     [((asc ''A'', asc ''A''),
       \<lparr>weight = 1, types = [asc ''city''], connections = [asc ''city: Berlin'']\<rparr>)]"
  by (simp add: combined_edges_def add_row_def node_pair_def sorted_pair_def row_AA_def
        fold_row_def new_edge_info_def set_add_def)

lemma build_index_recs_AA:
  "build_index recs_AA = [((asc ''competency'', asc ''ML''), [asc ''A'', asc ''A''])]"
  by (simp add: recs_AA_def build_index_def index_record_def startup_def index_values_def
        strip_def rstrip_def is_space_def asc_def Let_def)

lemma sharing_events_recs_AA:
  "sharing_events (build_index recs_AA) =
     [((asc ''competency'', asc ''ML''), (asc ''A'', asc ''A''))]"
  by (simp add: build_index_recs_AA sharing_events_def pair_events_def)

lemma at_combined_edges_recs_AA:
  "map fst (at_combined_edges (build_index recs_AA)) = [(asc ''A'', asc ''A'')]"
  by (simp add: at_combined_edges_events sharing_events_recs_AA add_event_pair sorted_pair_def)

section \<open>Self-edges\<close>

text \<open>
  C2, as stated, fails in both pipelines: a row of the connections file from A to A is
  aggregated into an edge from A to A, and so are two records of the startup A that share a
  competency.
\<close>

theorem self_edge_emitted:
  "map out_Source (weighted_edges ascii_lower id [row_AA]) = [asc ''A'']
   \<and> map out_Target (weighted_edges ascii_lower id [row_AA]) = [asc ''A'']
   \<and> map source (process_records id recs_AA) = [asc ''A'']
   \<and> map target (process_records id recs_AA) = [asc ''A'']"
proof -
  have "map (\<lambda>e. (out_Source e, out_Target e)) (weighted_edges ascii_lower id [row_AA])
          = [(asc ''A'', asc ''A'')]"
    and "map (\<lambda>e. (source e, target e)) (process_records id recs_AA) = [(asc ''A'', asc ''A'')]"
    by (simp_all add: weighted_edges_keys combined_edges_row_AA process_records_keys
          at_combined_edges_recs_AA)
  then show ?thesis
    by (auto simp: map_eq_Cons_conv)
qed

text \<open>
  C2, as amended. An edge from an entity \<open>E\<close> to itself is emitted exactly when a row of the
  connections file has \<open>E\<close> as both its source and its target (CSV pipeline), or when \<open>E\<close> is
  at least twice in the list of an index entry (Airtable pipeline). Without such a row or
  entry no edge joins an entity to itself.
\<close>

theorem self_edges_exactly_from_repeats:
  "((\<exists>e \<in> set (weighted_edges lower iter rows). out_Source e = E \<and> out_Target e = E)
      \<longleftrightarrow> (\<exists>row \<in> set rows. Source row = E \<and> Target row = E))
   \<and> ((\<exists>e \<in> set (process_records iter records). source e = E \<and> target e = E)
      \<longleftrightarrow> (\<exists>(conn, startup_list) \<in> set (build_index records). 2 \<le> count_list startup_list E))"
proof
  have "(\<exists>e \<in> set (weighted_edges lower iter rows). out_Source e = E \<and> out_Target e = E)
      \<longleftrightarrow> (E, E) \<in> set (map (\<lambda>e. (out_Source e, out_Target e)) (weighted_edges lower iter rows))"
    unfolding set_map in_image_iff by simp
  also have "\<dots> \<longleftrightarrow> (E, E) \<in> node_pair ` set rows"
    unfolding weighted_edges_keys set_map combined_edges_keys ..
  also have "\<dots> \<longleftrightarrow> (\<exists>row \<in> set rows. node_pair row = (E, E))"
    by (rule in_image_iff)
  also have "\<dots> \<longleftrightarrow> (\<exists>row \<in> set rows. Source row = E \<and> Target row = E)"
    by (simp add: node_pair_def sorted_pair_same)
  finally show "(\<exists>e \<in> set (weighted_edges lower iter rows). out_Source e = E \<and> out_Target e = E)
      \<longleftrightarrow> (\<exists>row \<in> set rows. Source row = E \<and> Target row = E)" .
next
  let ?index = "build_index records"
  have "(\<exists>e \<in> set (process_records iter records). source e = E \<and> target e = E)
      \<longleftrightarrow> (E, E) \<in> set (map (\<lambda>e. (source e, target e)) (process_records iter records))"
    unfolding set_map in_image_iff by simp
  also have "\<dots> \<longleftrightarrow> (E, E) \<in> event_key ` set (sharing_events ?index)"
    unfolding process_records_keys set_map at_combined_edges_events events_keys ..
  also have "\<dots> \<longleftrightarrow> (\<exists>ev \<in> set (sharing_events ?index). event_key ev = (E, E))"
    by (rule in_image_iff)
  also have "\<dots> \<longleftrightarrow> (\<exists>conn. (conn, (E, E)) \<in> set (sharing_events ?index))"
  proof
    assume "\<exists>ev \<in> set (sharing_events ?index). event_key ev = (E, E)"
    then obtain conn s t where "(conn, (s, t)) \<in> set (sharing_events ?index)"
      and "sorted_pair s t = (E, E)"
      by (auto simp: event_key_def)
    then have "(conn, (E, E)) \<in> set (sharing_events ?index)"
      by (simp add: sorted_pair_same)
    then show "\<exists>conn. (conn, (E, E)) \<in> set (sharing_events ?index)" ..
  next
    assume "\<exists>conn. (conn, (E, E)) \<in> set (sharing_events ?index)"
    then obtain conn where "(conn, (E, E)) \<in> set (sharing_events ?index)" ..
    moreover have "event_key (conn, (E, E)) = (E, E)"
      by (simp add: event_key_def sorted_pair_def)
    ultimately show "\<exists>ev \<in> set (sharing_events ?index). event_key ev = (E, E)" ..
  qed
  also have "\<dots> \<longleftrightarrow> (\<exists>(conn, startup_list) \<in> set ?index. 2 \<le> count_list startup_list E)"
    unfolding sharing_events_iff pair_events_same by auto
  finally show "(\<exists>e \<in> set (process_records iter records). source e = E \<and> target e = E)
      \<longleftrightarrow> (\<exists>(conn, startup_list) \<in> set ?index. 2 \<le> count_list startup_list E)" .
qed

theorem self_edges_exactly_from_repeats_witness:
  "(\<exists>row \<in> set [row_BA, row_AA]. Source row = asc ''A'' \<and> Target row = asc ''A'')
   \<and> (\<exists>e \<in> set (weighted_edges ascii_lower id [row_BA, row_AA]).
         out_Source e = asc ''A'' \<and> out_Target e = asc ''A'')
   \<and> \<not> (\<exists>row \<in> set [row_BA, row_AA]. Source row = asc ''B'' \<and> Target row = asc ''B'')
   \<and> \<not> (\<exists>e \<in> set (weighted_edges ascii_lower id [row_BA, row_AA]).
         out_Source e = asc ''B'' \<and> out_Target e = asc ''B'')
   \<and> (\<exists>(conn, startup_list) \<in> set (build_index recs_AA). 2 \<le> count_list startup_list (asc ''A''))
   \<and> (\<exists>e \<in> set (process_records id recs_AA). source e = asc ''A'' \<and> target e = asc ''A'')
   \<and> \<not> (\<exists>(conn, startup_list) \<in> set (build_index recs_AB).
           2 \<le> count_list startup_list (asc ''A''))
   \<and> \<not> (\<exists>e \<in> set (process_records id recs_AB). source e = asc ''A'' \<and> target e = asc ''A'')"
proof -
  have a: "\<exists>row \<in> set [row_BA, row_AA]. Source row = asc ''A'' \<and> Target row = asc ''A''"
    by (simp add: row_AA_def)
  have b: "\<not> (\<exists>row \<in> set [row_BA, row_AA]. Source row = asc ''B'' \<and> Target row = asc ''B'')"
    by (simp add: row_AA_def row_BA_def asc_def)
  have c: "\<exists>(conn, startup_list) \<in> set (build_index recs_AA).
      2 \<le> count_list startup_list (asc ''A'')"
    by (simp add: build_index_recs_AA)
  have d: "\<not> (\<exists>(conn, startup_list) \<in> set (build_index recs_AB).
      2 \<le> count_list startup_list (asc ''A''))"
    by (simp add: build_index_example asc_def)
  from a b self_edges_exactly_from_repeats [of ascii_lower id "[row_BA, row_AA]" "asc ''A''"]
    self_edges_exactly_from_repeats [of ascii_lower id "[row_BA, row_AA]" "asc ''B''"]
  have csv: "\<exists>e \<in> set (weighted_edges ascii_lower id [row_BA, row_AA]).
         out_Source e = asc ''A'' \<and> out_Target e = asc ''A''"
    "\<not> (\<exists>e \<in> set (weighted_edges ascii_lower id [row_BA, row_AA]).
         out_Source e = asc ''B'' \<and> out_Target e = asc ''B'')"
    by blast+
  from c d self_edges_exactly_from_repeats [of ascii_lower id "[]" "asc ''A''" recs_AA]
    self_edges_exactly_from_repeats [of ascii_lower id "[]" "asc ''A''" recs_AB]
  have at: "\<exists>e \<in> set (process_records id recs_AA). source e = asc ''A'' \<and> target e = asc ''A''"
    "\<not> (\<exists>e \<in> set (process_records id recs_AB). source e = asc ''A'' \<and> target e = asc ''A'')"
    by blast+
  from a b c d csv at show ?thesis
    by blast
qed

section \<open>The pair expander\<close>

lemma index_values_distinct:
  "distinct (map fst index) \<Longrightarrow> distinct (map fst (index_values conn_type vals name index))"
  unfolding index_values_def
  by (induction vals arbitrary: index rule: rev_induct) (simp_all add: dd_update_distinct)

lemma index_record_distinct:
  "distinct (map fst index) \<Longrightarrow> distinct (map fst (index_record index r))"
  by (simp add: index_record_def Let_def index_values_distinct)

lemma build_index_distinct: "distinct (map fst (build_index records))"
  unfolding build_index_def
  by (induction records rule: rev_induct) (simp_all add: index_record_distinct)

lemma filter_sharing_events_other:
  "conn \<notin> fst ` set index \<Longrightarrow> filter (\<lambda>ev. fst ev = conn) (sharing_events index) = []"
proof (induction index)
  case Nil
  show ?case by (simp add: sharing_events_Nil)
next
  case (Cons entry index)
  obtain c l where entry: "entry = (c, l)"
    by (cases entry)
  from Cons show ?case
    by (auto simp: entry sharing_events_Cons filter_empty_conv)
qed

lemma filter_sharing_events:
  "distinct (map fst index) \<Longrightarrow> (conn, l) \<in> set index \<Longrightarrow>
     filter (\<lambda>ev. fst ev = conn) (sharing_events index) = map (Pair conn) (pair_events l)"
proof (induction index)
  case Nil
  then show ?case by simp
next
  case (Cons entry index)
  obtain c l' where entry: "entry = (c, l')"
    by (cases entry)
  show ?case
  proof (cases "c = conn")
    case True
    with Cons.prems entry have "l' = l" and "conn \<notin> fst ` set index"
      by (auto simp: image_iff)
    with True show ?thesis
      by (simp add: entry sharing_events_Cons filter_sharing_events_other filter_map comp_def)
  next
    case False
    with Cons entry have "filter (\<lambda>ev. fst ev = conn) (sharing_events index) =
        map (Pair conn) (pair_events l)"
      by auto
    with False show ?thesis
      by (auto simp: entry sharing_events_Cons filter_empty_conv)
  qed
qed

lemma pair_events_length: "length (pair_events l) = length l choose 2"
proof (cases "length l < 2")
  case True
  then have "length l choose 2 = 0"
    by (simp add: binomial_eq_0)
  with True show ?thesis
    by (simp add: pair_events_def)
next
  case False
  then show ?thesis
    by (simp add: pair_events_def length_combinations2)
qed

lemma pair_events_distinct:
  assumes "distinct l"
  shows "distinct (pair_events l)"
    and "set (pair_events l) = {(a, b). a \<in> set l \<and> b \<in> set l \<and> a < b}"
proof -
  from assms show "distinct (pair_events l)"
    by (simp add: pair_events_def distinct_combinations2)
  show "set (pair_events l) = {(a, b). a \<in> set l \<and> b \<in> set l \<and> a < b}"
  proof (cases "length l < 2")
    case True
    then have "l = [] \<or> (\<exists>x. l = [x])"
      by (cases l) (auto simp: numeral_2_eq_2)
    then show ?thesis
      by (auto simp: pair_events_def)
  next
    case False
    with assms show ?thesis
      by (simp add: pair_events_def set_combinations2)
  qed
qed

lemma build_index_recs_ABA:
  "build_index recs_ABA =
     [((asc ''competency'', asc ''ML''), [asc ''A'', asc ''B'', asc ''A''])]"
  by (simp add: recs_ABA_def build_index_def index_record_def startup_def index_values_def
        strip_def rstrip_def is_space_def asc_def Let_def)

lemma build_index_recs_4:
  "build_index recs_4 =
     [((asc ''competency'', asc ''ML''), [asc ''D'', asc ''B'', asc ''A'', asc ''C''])]"
  by (simp add: recs_4_def build_index_def index_record_def startup_def index_values_def
        strip_def rstrip_def is_space_def asc_def Let_def)

lemma build_index_single:
  "build_index [startup (asc ''A'') [asc ''ML'']] =
     [((asc ''competency'', asc ''ML''), [asc ''A''])]"
  by (simp add: build_index_def index_record_def startup_def index_values_def
        strip_def rstrip_def is_space_def asc_def Let_def)

text \<open>
  C5, as stated, fails when an entity is more than once in the list of an index entry: the
  records A, B, A with one competency give the entry \<open>[A, B, A]\<close>, with two distinct
  entities, and three events, one of them pairing A with itself; two records of A give one
  entity and one event.
\<close>

theorem repeated_entity_pairs:
  "build_index recs_ABA =
     [((asc ''competency'', asc ''ML''), [asc ''A'', asc ''B'', asc ''A''])]
   \<and> card (set [asc ''A'', asc ''B'', asc ''A'']) = 2
   \<and> map snd (sharing_events (build_index recs_ABA)) =
       [(asc ''A'', asc ''A''), (asc ''A'', asc ''B''), (asc ''A'', asc ''B'')]
   \<and> build_index recs_AA = [((asc ''competency'', asc ''ML''), [asc ''A'', asc ''A''])]
   \<and> card (set [asc ''A'', asc ''A'']) = 1
   \<and> map snd (sharing_events (build_index recs_AA)) = [(asc ''A'', asc ''A'')]"
proof -
  have "card (set [asc ''A'', asc ''B'', asc ''A'']) = 2"
    unfolding card_set by (simp add: asc_def)
  moreover have "map snd (sharing_events (build_index recs_ABA)) =
       [(asc ''A'', asc ''A''), (asc ''A'', asc ''B''), (asc ''A'', asc ''B'')]"
    by (simp add: build_index_recs_ABA sharing_events_def pair_events_def asc_def)
  moreover have "map snd (sharing_events (build_index recs_AA)) = [(asc ''A'', asc ''A'')]"
    by (simp add: sharing_events_recs_AA)
  moreover have "card (set [asc ''A'', asc ''A'']) = 1"
    unfolding card_set by (simp add: asc_def)
  ultimately show ?thesis
    using build_index_recs_ABA build_index_recs_AA by blast
qed

text \<open>
  C5, as amended. An index entry whose list has \<open>n\<close> members, repeated members counted,
  is expanded into exactly \<open>C(n, 2)\<close> sharing events, and into none when \<open>n < 2\<close>. When
  no entity is repeated in the list, \<open>n\<close> is the number of distinct entities and the events
  are one for each unordered pair of distinct entities, smaller name first.
\<close>

theorem pair_expander_counts:
  "\<forall>(conn, startup_list) \<in> set (build_index records).
     (let events = filter (\<lambda>ev. fst ev = conn) (sharing_events (build_index records));
          n = length startup_list
      in length events = n choose 2
         \<and> (n < 2 \<longrightarrow> events = [])
         \<and> (distinct startup_list \<longrightarrow>
              n = card (set startup_list) \<and> distinct events
              \<and> set events =
                  {(conn, (a, b)) | a b. a \<in> set startup_list \<and> b \<in> set startup_list \<and> a < b}))"
proof (intro ballI, clarify)
  fix conn_type conn_value :: pystr and startup_list :: "pystr list"
  let ?conn = "(conn_type, conn_value)"
  let ?events = "filter (\<lambda>ev. fst ev = ?conn) (sharing_events (build_index records))"
  assume "(?conn, startup_list) \<in> set (build_index records)"
  then have events: "?events = map (Pair ?conn) (pair_events startup_list)"
    using build_index_distinct by (rule filter_sharing_events [rotated])
  have len: "length ?events = length startup_list choose 2"
    by (simp add: events pair_events_length)
  have none: "length startup_list < 2 \<longrightarrow> ?events = []"
    by (simp add: events pair_events_def)
  have dist: "distinct startup_list \<longrightarrow>
      length startup_list = card (set startup_list) \<and> distinct ?events
      \<and> set ?events =
          {(?conn, (a, b)) | a b. a \<in> set startup_list \<and> b \<in> set startup_list \<and> a < b}"
  proof
    assume d: "distinct startup_list"
    then have "length startup_list = card (set startup_list)"
      by (simp add: distinct_card)
    moreover from d have "distinct ?events"
      by (simp add: events pair_events_distinct(1) distinct_map inj_on_def)
    moreover from d have "set ?events =
          {(?conn, (a, b)) | a b. a \<in> set startup_list \<and> b \<in> set startup_list \<and> a < b}"
      unfolding events set_map pair_events_distinct(2) [OF d] by auto
    ultimately show "length startup_list = card (set startup_list) \<and> distinct ?events
      \<and> set ?events =
          {(?conn, (a, b)) | a b. a \<in> set startup_list \<and> b \<in> set startup_list \<and> a < b}"
      by simp
  qed
  from len none dist
  show "let events = ?events; n = length startup_list
      in length events = n choose 2
         \<and> (n < 2 \<longrightarrow> events = [])
         \<and> (distinct startup_list \<longrightarrow>
              n = card (set startup_list) \<and> distinct events
              \<and> set events =
                  {(?conn, (a, b)) | a b. a \<in> set startup_list \<and> b \<in> set startup_list \<and> a < b})"
    unfolding Let_def by blast
qed

theorem pair_expander_counts_witness:
  "build_index recs_4 =
     [((asc ''competency'', asc ''ML''), [asc ''D'', asc ''B'', asc ''A'', asc ''C''])]
   \<and> distinct [asc ''D'', asc ''B'', asc ''A'', asc ''C'']
   \<and> length (sharing_events (build_index recs_4)) = 6
   \<and> map snd (sharing_events (build_index recs_4)) =
       [(asc ''A'', asc ''B''), (asc ''A'', asc ''C''), (asc ''A'', asc ''D''),
        (asc ''B'', asc ''C''), (asc ''B'', asc ''D''), (asc ''C'', asc ''D'')]
   \<and> build_index [startup (asc ''A'') [asc ''ML'']] =
       [((asc ''competency'', asc ''ML''), [asc ''A''])]
   \<and> sharing_events (build_index [startup (asc ''A'') [asc ''ML'']]) = []"
proof -
  have evs: "map snd (sharing_events (build_index recs_4)) =
       [(asc ''A'', asc ''B''), (asc ''A'', asc ''C''), (asc ''A'', asc ''D''),
        (asc ''B'', asc ''C''), (asc ''B'', asc ''D''), (asc ''C'', asc ''D'')]"
    by (simp add: build_index_recs_4 sharing_events_def pair_events_def asc_def)
  have fst_evs: "filter (\<lambda>ev. fst ev = (asc ''competency'', asc ''ML''))
      (sharing_events (build_index recs_4)) = sharing_events (build_index recs_4)"
    by (simp add: build_index_recs_4 sharing_events_def)
  have d: "distinct [asc ''D'', asc ''B'', asc ''A'', asc ''C'']"
    by (simp add: asc_def)
  have mem: "((asc ''competency'', asc ''ML''), [asc ''D'', asc ''B'', asc ''A'', asc ''C''])
      \<in> set (build_index recs_4)"
    by (simp add: build_index_recs_4)
  from bspec [OF pair_expander_counts mem]
  have "length (filter (\<lambda>ev. fst ev = (asc ''competency'', asc ''ML''))
      (sharing_events (build_index recs_4))) =
      length [asc ''D'', asc ''B'', asc ''A'', asc ''C''] choose 2"
    unfolding Let_def case_prod_conv by (rule conjunct1)
  then have len: "length (sharing_events (build_index recs_4)) = 6"
    unfolding fst_evs by (simp add: numeral_2_eq_2)
  have fst_single: "filter (\<lambda>ev. fst ev = (asc ''competency'', asc ''ML''))
      (sharing_events (build_index [startup (asc ''A'') [asc ''ML'']])) =
      sharing_events (build_index [startup (asc ''A'') [asc ''ML'']])"
    by (simp add: build_index_single sharing_events_def)
  have mem1: "((asc ''competency'', asc ''ML''), [asc ''A''])
      \<in> set (build_index [startup (asc ''A'') [asc ''ML'']])"
    by (simp add: build_index_single)
  from bspec [OF pair_expander_counts mem1]
  have "length [asc ''A''] < 2 \<longrightarrow>
      filter (\<lambda>ev. fst ev = (asc ''competency'', asc ''ML''))
        (sharing_events (build_index [startup (asc ''A'') [asc ''ML'']])) = []"
    unfolding Let_def case_prod_conv by (rule conjunct1 [OF conjunct2])
  then have none: "sharing_events (build_index [startup (asc ''A'') [asc ''ML'']]) = []"
    unfolding fst_single by simp
  from evs d len none build_index_recs_4 build_index_single show ?thesis
    by blast
qed

section \<open>Filing the connection strings\<close>

lemma split_once_None_iff:
  "sep \<noteq> [] \<Longrightarrow> split_once sep s = None \<longleftrightarrow> \<not> sublist sep s"
  by (induction s) (auto simp: sublist_Cons_right split: option.splits)

lemma sep_value: "asc '': '' = [58, 32]"
  by (simp add: asc_def)

lemma split_once_first:
  "\<not> sublist [58, 32] t \<Longrightarrow> split_once [58, 32] (t @ [58, 32] @ v) = Some (t, v)"
proof (induction t)
  case Nil
  show ?case by simp
next
  case (Cons c t)
  then have no_prefix: "\<not> prefix [58, 32] (c # t)" and no_sub: "\<not> sublist [58, 32] t"
    by (simp_all add: sublist_Cons_right)
  from no_prefix have "\<not> prefix [58, 32] ((c # t) @ [58, 32] @ v)"
    by (cases t) auto
  with Cons.IH [OF no_sub] show ?case
    by simp
qed

lemma key_of_None_iff:
  "key_of t = None \<longleftrightarrow>
     t \<notin> {asc ''city'', asc ''country'', asc ''competency'', asc ''impact'',
          asc ''target_market'', asc ''other''}"
  by (simp add: key_of_def)

lemma file_conn_malformed:
  "\<not> sublist (asc '': '') conn \<Longrightarrow>
     file_conn lower parsed conn = parsed(Other := parsed Other @ [conn])"
  by (simp add: file_conn_def split_once_None_iff [symmetric] sep_value)

lemma file_conn_unknown:
  assumes "\<not> sublist (asc '': '') t" and "key_of (lower (strip t)) = None"
  shows "file_conn lower parsed (t @ asc '': '' @ v) = parsed(Other := parsed Other @ [strip v])"
proof -
  from assms(1) have "split_once (asc '': '') (t @ asc '': '' @ v) = Some (t, v)"
    unfolding sep_value by (rule split_once_first)
  with assms(2) show ?thesis
    by (simp add: file_conn_def)
qed

lemma parse_connections_snoc:
  "parse_connections lower (conns @ [conn]) = file_conn lower (parse_connections lower conns) conn"
  by (simp add: parse_connections_def)

lemma file_conn_keeps: "x \<in> set (parsed k) \<Longrightarrow> x \<in> set (file_conn lower parsed conn k)"
  by (auto simp: file_conn_def split: option.splits prod.splits)

lemma parse_connections_keeps:
  "x \<in> set (parse_connections lower conns k) \<Longrightarrow>
     x \<in> set (parse_connections lower (conns @ rest) k)"
proof (induction rest rule: rev_induct)
  case Nil
  then show ?case by simp
next
  case (snoc conn rest)
  then have "x \<in> set (file_conn lower (parse_connections lower (conns @ rest)) conn k)"
    by (simp add: file_conn_keeps)
  then show ?case
    by (simp add: parse_connections_snoc [symmetric])
qed

lemma parse_connections_filed:
  assumes "conn \<in> set conns"
    and "\<And>parsed. file_conn lower parsed conn = parsed(Other := parsed Other @ [x])"
  shows "x \<in> set (parse_connections lower conns Other)"
proof -
  from assms(1) obtain before after where conns: "conns = (before @ [conn]) @ after"
    by (auto simp: in_set_conv_decomp)
  have "x \<in> set (parse_connections lower (before @ [conn]) Other)"
    by (simp add: parse_connections_snoc assms(2))
  then show ?thesis
    unfolding conns by (rule parse_connections_keeps)
qed

lemma file_conn_count:
  "length (file_conn lower parsed conn City) + length (file_conn lower parsed conn Country)
     + length (file_conn lower parsed conn Competency)
     + length (file_conn lower parsed conn Impact)
     + length (file_conn lower parsed conn Target_market)
     + length (file_conn lower parsed conn Other)
   = Suc (length (parsed City) + length (parsed Country) + length (parsed Competency)
     + length (parsed Impact) + length (parsed Target_market) + length (parsed Other))"
proof -
  have upd: "\<And>k x. length ((parsed(k := parsed k @ [x])) City)
       + length ((parsed(k := parsed k @ [x])) Country)
       + length ((parsed(k := parsed k @ [x])) Competency)
       + length ((parsed(k := parsed k @ [x])) Impact)
       + length ((parsed(k := parsed k @ [x])) Target_market)
       + length ((parsed(k := parsed k @ [x])) Other)
     = Suc (length (parsed City) + length (parsed Country) + length (parsed Competency)
       + length (parsed Impact) + length (parsed Target_market) + length (parsed Other))"
  proof -
    fix k x show "?thesis k x"
      by (cases k) simp_all
  qed
  show ?thesis
    unfolding file_conn_def by (simp only: upd split: option.splits prod.splits) simp
qed

lemma parse_connections_count:
  "length (parse_connections lower conns City) + length (parse_connections lower conns Country)
     + length (parse_connections lower conns Competency)
     + length (parse_connections lower conns Impact)
     + length (parse_connections lower conns Target_market)
     + length (parse_connections lower conns Other)
   = length conns"
proof (induction conns rule: rev_induct)
  case Nil
  show ?case by (simp add: parse_connections_def new_parsed_def)
next
  case (snoc conn conns)
  then show ?case
    unfolding parse_connections_snoc file_conn_count by simp
qed

text \<open>
  C8. In the loop over the connection strings of an edge, a string without the separator
  \<open>': '\<close> is filed whole under \<open>other\<close>, and a string \<open>t: v\<close>, split at its first
  separator, whose category \<open>t\<close>, trimmed and lowercased, is none of the six keys of
  \<open>parsed\<close> has its trimmed value \<open>v\<close> filed under \<open>other\<close>. The loop is a total function
  (no branch of it raises), and every string processed adds one entry to one of the six
  lists, so none is dropped.
\<close>

theorem unparsed_connections_filed_under_other:
  "(\<forall>conn \<in> set conns.
      (\<not> sublist (asc '': '') conn \<longrightarrow> conn \<in> set (parse_connections lower conns Other))
      \<and> (\<forall>t v. conn = t @ asc '': '' @ v \<and> \<not> sublist (asc '': '') t
             \<and> lower (strip t) \<notin> {asc ''city'', asc ''country'', asc ''competency'',
                                    asc ''impact'', asc ''target_market'', asc ''other''}
             \<longrightarrow> strip v \<in> set (parse_connections lower conns Other)))
   \<and> length (parse_connections lower conns City) + length (parse_connections lower conns Country)
       + length (parse_connections lower conns Competency)
       + length (parse_connections lower conns Impact)
       + length (parse_connections lower conns Target_market)
       + length (parse_connections lower conns Other)
     = length conns"
proof (intro conjI ballI allI impI)
  fix conn assume "conn \<in> set conns" and "\<not> sublist (asc '': '') conn"
  then show "conn \<in> set (parse_connections lower conns Other)"
    by (simp add: parse_connections_filed file_conn_malformed)
next
  fix conn t v
  assume conn: "conn \<in> set conns"
    and split: "conn = t @ asc '': '' @ v \<and> \<not> sublist (asc '': '') t
             \<and> lower (strip t) \<notin> {asc ''city'', asc ''country'', asc ''competency'',
                                    asc ''impact'', asc ''target_market'', asc ''other''}"
  then have "key_of (lower (strip t)) = None"
    unfolding key_of_None_iff by blast
  with split have "\<And>parsed. file_conn lower parsed conn = parsed(Other := parsed Other @ [strip v])"
    by (simp add: file_conn_unknown)
  with conn show "strip v \<in> set (parse_connections lower conns Other)"
    by (rule parse_connections_filed)
next
  show "length (parse_connections lower conns City) + length (parse_connections lower conns Country)
       + length (parse_connections lower conns Competency)
       + length (parse_connections lower conns Impact)
       + length (parse_connections lower conns Target_market)
       + length (parse_connections lower conns Other)
     = length conns"
    by (rule parse_connections_count)
qed

lemma parse_connections_example:
  "parse_connections ascii_lower [asc ''foo: bar'', asc ''foobar'', asc ''city: Berlin''] =
     new_parsed(Other := [asc ''bar'', asc ''foobar''], City := [asc ''Berlin''])"
  by (simp add: parse_connections_def file_conn_def new_parsed_def asc_def strip_def rstrip_def
        is_space_def ascii_lower_def key_of_def fun_eq_iff)

theorem unparsed_connections_filed_under_other_witness:
  "\<not> sublist (asc '': '') (asc ''foobar'')
   \<and> asc ''foo: bar'' = asc ''foo'' @ asc '': '' @ asc ''bar''
   \<and> \<not> sublist (asc '': '') (asc ''foo'')
   \<and> ascii_lower (strip (asc ''foo'')) \<notin> {asc ''city'', asc ''country'', asc ''competency'',
                                    asc ''impact'', asc ''target_market'', asc ''other''}
   \<and> asc ''foobar'' \<in> set (parse_connections ascii_lower
         [asc ''foo: bar'', asc ''foobar'', asc ''city: Berlin''] Other)
   \<and> strip (asc ''bar'') \<in> set (parse_connections ascii_lower
         [asc ''foo: bar'', asc ''foobar'', asc ''city: Berlin''] Other)
   \<and> parse_connections ascii_lower
         [asc ''foo: bar'', asc ''foobar'', asc ''city: Berlin''] Other
       = [asc ''bar'', asc ''foobar'']
   \<and> parse_connections ascii_lower
         [asc ''foo: bar'', asc ''foobar'', asc ''city: Berlin''] City
       = [asc ''Berlin'']"
proof -
  let ?conns = "[asc ''foo: bar'', asc ''foobar'', asc ''city: Berlin'']"
  have a: "\<not> sublist (asc '': '') (asc ''foobar'')"
    by (simp add: asc_def sublist_Cons_right)
  have b: "asc ''foo: bar'' = asc ''foo'' @ asc '': '' @ asc ''bar''"
    by (simp add: asc_def)
  have c: "\<not> sublist (asc '': '') (asc ''foo'')"
    by (simp add: asc_def sublist_Cons_right)
  have d: "ascii_lower (strip (asc ''foo'')) \<notin> {asc ''city'', asc ''country'',
      asc ''competency'', asc ''impact'', asc ''target_market'', asc ''other''}"
    by (simp add: asc_def strip_def rstrip_def is_space_def ascii_lower_def)
  have m1: "asc ''foobar'' \<in> set ?conns" and m2: "asc ''foo: bar'' \<in> set ?conns"
    by simp_all
  from unparsed_connections_filed_under_other [of ?conns ascii_lower] m1 a
  have e: "asc ''foobar'' \<in> set (parse_connections ascii_lower ?conns Other)"
    by blast
  from unparsed_connections_filed_under_other [of ?conns ascii_lower] m2 b c d
  have f: "strip (asc ''bar'') \<in> set (parse_connections ascii_lower ?conns Other)"
    by blast
  have g: "parse_connections ascii_lower ?conns Other = [asc ''bar'', asc ''foobar'']"
    "parse_connections ascii_lower ?conns City = [asc ''Berlin'']"
    by (simp_all add: parse_connections_example)
  from a b c d e f g show ?thesis
    by blast
qed

section \<open>Values that are empty once trimmed\<close>

lemma build_index_recs_blank:
  "build_index recs_blank = [((asc ''competency'', []), [asc ''A'', asc ''B''])]"
  by (simp add: recs_blank_def build_index_def index_record_def startup_def index_values_def
        strip_def rstrip_def is_space_def asc_def Let_def)

lemma at_combined_edges_recs_blank:
  "at_combined_edges (build_index recs_blank) =
     [((asc ''A'', asc ''B''),
       \<lparr>weight = 1, types = [asc ''competency''], connections = [asc ''competency: ''],
        competencies = [[]], technical_competencies = [], impacts = [],
        cities = [], countries = [], regions = [], cohorts = []\<rparr>)]"
  by (simp add: at_combined_edges_events build_index_recs_blank sharing_events_def
        pair_events_example add_event_pair)
     (simp add: sorted_pair_def fold_event_def new_at_edge_info_def set_add_def asc_def)

text \<open>
  C9. \<open>clean_array_field\<close> drops the empty entries of an array before it trims the others,
  so an entry of whitespace only passes the test and is trimmed to the empty string, which
  is then indexed like any value: two startups whose competency is two spaces are joined by
  an edge on the competency \<open>''\<close>. The startup name, in the same function, is trimmed
  first and tested after.
\<close>

theorem blank_value_indexed:
  "clean_array_field (Arr [asc ''  '']) = [[]]
   \<and> build_index recs_blank = [((asc ''competency'', []), [asc ''A'', asc ''B''])]
   \<and> map source (process_records id recs_blank) = [asc ''A'']
   \<and> map target (process_records id recs_blank) = [asc ''B'']
   \<and> map edge_competencies (process_records id recs_blank) = [[[]]]"
proof -
  have "clean_array_field (Arr [asc ''  '']) = [[]]"
    by (simp add: strip_def rstrip_def is_space_def asc_def)
  moreover have "map source (process_records id recs_blank) = [asc ''A'']"
    "map target (process_records id recs_blank) = [asc ''B'']"
    "map edge_competencies (process_records id recs_blank) = [[[]]]"
    by (simp_all add: process_records_def at_combined_edges_recs_blank at_edge_of_def)
  ultimately show ?thesis
    using build_index_recs_blank by blast
qed

end
